theory Spec2Isabelle
  imports Complex_Main
begin

section \<open>JavaScript numbers\<close>

text \<open>
  The calculator of \<^verbatim>\<open>src/app.js\<close> works on JavaScript numbers, which are IEEE 754
  binary64 values. A number is modelled as a finite value \<open>Num x\<close>, one of the two
  infinities, or \<open>NaN\<close>. Every arithmetic operation computes the exact real result and
  rounds it to the nearest double, ties to even, with gradual underflow below
  \<open>2^-1022\<close> and overflow to an infinity from \<open>2^1024\<close> on. There is a single zero,
  read as \<open>+0\<close> where its sign would matter, that is as a divisor.
\<close>

datatype number = Num real | PosInf | NegInf | NaN

text \<open>
  The binade of a value: the exponent \<open>e\<close> with \<open>2^e \<le> |x| < 2^(e+1)\<close>, not below
  the exponent \<open>-1022\<close> of the subnormal range.
\<close>

definition binade :: "real \<Rightarrow> int" where
  "binade x = max (- 1022) \<lfloor>log 2 \<bar>x\<bar>\<rfloor>"

text \<open>The unit in the last place of a 53-bit significand in the binade of \<open>x\<close>.\<close>

definition ulp :: "real \<Rightarrow> real" where
  "ulp x = 2 powi (binade x - 52)"

text \<open>Rounding to the nearest integer, a tie going to the even one.\<close>

definition round_even :: "real \<Rightarrow> int" where
  "round_even q =
     (let f = \<lfloor>q\<rfloor>; d = q - of_int f
      in if d < 1 / 2 then f else if 1 / 2 < d then f + 1 else if even f then f else f + 1)"

text \<open>The nearest multiple of the unit in the last place.\<close>

definition rounded :: "real \<Rightarrow> real" where
  "rounded x = of_int (round_even (x / ulp x)) * ulp x"

text \<open>The double that an exact result \<open>x\<close> is rounded to.\<close>

definition fl :: "real \<Rightarrow> number" where
  "fl x =
     (if x = 0 then Num 0
      else if 2 ^ 1024 \<le> rounded x then PosInf
      else if rounded x \<le> - (2 ^ 1024) then NegInf
      else Num (rounded x))"

fun num_neg :: "number \<Rightarrow> number" where
  "num_neg (Num a) = Num (- a)"
| "num_neg PosInf = NegInf"
| "num_neg NegInf = PosInf"
| "num_neg NaN = NaN"

text \<open>\<^verbatim>\<open>a + b\<close> on numbers.\<close>

fun num_add :: "number \<Rightarrow> number \<Rightarrow> number" where
  "num_add (Num a) (Num b) = fl (a + b)"
| "num_add NaN _ = NaN"
| "num_add _ NaN = NaN"
| "num_add PosInf NegInf = NaN"
| "num_add NegInf PosInf = NaN"
| "num_add PosInf _ = PosInf"
| "num_add _ PosInf = PosInf"
| "num_add NegInf _ = NegInf"
| "num_add _ NegInf = NegInf"

text \<open>\<^verbatim>\<open>a - b\<close> on numbers.\<close>

definition num_sub :: "number \<Rightarrow> number \<Rightarrow> number" where
  "num_sub a b = num_add a (num_neg b)"

text \<open>\<^verbatim>\<open>a * b\<close> on numbers: zero times an infinity is \<open>NaN\<close>.\<close>

fun num_mul :: "number \<Rightarrow> number \<Rightarrow> number" where
  "num_mul (Num a) (Num b) = fl (a * b)"
| "num_mul NaN _ = NaN"
| "num_mul _ NaN = NaN"
| "num_mul (Num a) PosInf = (if a = 0 then NaN else if 0 < a then PosInf else NegInf)"
| "num_mul (Num a) NegInf = (if a = 0 then NaN else if 0 < a then NegInf else PosInf)"
| "num_mul PosInf (Num b) = (if b = 0 then NaN else if 0 < b then PosInf else NegInf)"
| "num_mul NegInf (Num b) = (if b = 0 then NaN else if 0 < b then NegInf else PosInf)"
| "num_mul PosInf PosInf = PosInf"
| "num_mul NegInf NegInf = PosInf"
| "num_mul PosInf NegInf = NegInf"
| "num_mul NegInf PosInf = NegInf"

text \<open>
  \<^verbatim>\<open>a / b\<close> on numbers. JavaScript has no division error: a finite nonzero value
  divided by zero is an infinity, and \<^verbatim>\<open>0 / 0\<close> is \<open>NaN\<close>.
\<close>

fun num_div :: "number \<Rightarrow> number \<Rightarrow> number" where
  "num_div (Num a) (Num b) =
     (if b = 0 then (if a = 0 then NaN else if 0 < a then PosInf else NegInf)
      else fl (a / b))"
| "num_div NaN _ = NaN"
| "num_div _ NaN = NaN"
| "num_div (Num a) PosInf = Num 0"
| "num_div (Num a) NegInf = Num 0"
| "num_div PosInf (Num b) = (if 0 \<le> b then PosInf else NegInf)"
| "num_div NegInf (Num b) = (if 0 \<le> b then NegInf else PosInf)"
| "num_div PosInf PosInf = NaN"
| "num_div PosInf NegInf = NaN"
| "num_div NegInf PosInf = NaN"
| "num_div NegInf NegInf = NaN"

text \<open>\<^verbatim>\<open>a < b\<close>: false as soon as one side is \<open>NaN\<close>.\<close>

fun num_lt :: "number \<Rightarrow> number \<Rightarrow> bool" where
  "num_lt (Num a) (Num b) = (a < b)"
| "num_lt NaN _ = False"
| "num_lt _ NaN = False"
| "num_lt _ NegInf = False"
| "num_lt NegInf _ = True"
| "num_lt PosInf _ = False"
| "num_lt _ PosInf = True"

text \<open>
  \<^verbatim>\<open>a <= b\<close>: the language evaluates \<^verbatim>\<open>b < a\<close> and answers false when that is
  true or undefined (a \<open>NaN\<close> operand).
\<close>

definition num_le :: "number \<Rightarrow> number \<Rightarrow> bool" where
  "num_le a b = (a \<noteq> NaN \<and> b \<noteq> NaN \<and> \<not> num_lt b a)"

text \<open>\<^verbatim>\<open>a === b\<close> on numbers: \<open>NaN\<close> is not equal to itself.\<close>

definition strict_eq :: "number \<Rightarrow> number \<Rightarrow> bool" where
  "strict_eq a b = (a \<noteq> NaN \<and> b \<noteq> NaN \<and> a = b)"

definition is_integer :: "real \<Rightarrow> bool" where
  "is_integer y = (of_int \<lfloor>y\<rfloor> = y)"

definition is_odd_integer :: "real \<Rightarrow> bool" where
  "is_odd_integer y = (is_integer y \<and> odd \<lfloor>y\<rfloor>)"

text \<open>
  \<^verbatim>\<open>Math.pow(base, exponent)\<close>, case by case as the language defines it. The language
  leaves the accuracy of the finite case to the implementation; the model takes the
  exact power rounded to the nearest double, the real power \<open>x powr y\<close> for a positive
  base, also for an exponent that is not an integer.
\<close>

fun Math_pow :: "number \<Rightarrow> number \<Rightarrow> number" where
  "Math_pow _ NaN = NaN"
| "Math_pow b (Num y) =
     (if y = 0 then Num 1
      else case b of
        NaN \<Rightarrow> NaN
      | PosInf \<Rightarrow> (if 0 < y then PosInf else Num 0)
      | NegInf \<Rightarrow> (if 0 < y then (if is_odd_integer y then NegInf else PosInf) else Num 0)
      | Num x \<Rightarrow>
          (if 0 < x then fl (x powr y)
           else if x = 0 then (if 0 < y then Num 0 else PosInf)
           else if is_integer y then fl (x powi \<lfloor>y\<rfloor>)
           else NaN))"
| "Math_pow NaN _ = NaN"
| "Math_pow (Num x) PosInf =
     (if 1 < \<bar>x\<bar> then PosInf else if \<bar>x\<bar> = 1 then NaN else Num 0)"
| "Math_pow (Num x) NegInf =
     (if 1 < \<bar>x\<bar> then Num 0 else if \<bar>x\<bar> = 1 then NaN else PosInf)"
| "Math_pow _ PosInf = PosInf"
| "Math_pow _ NegInf = Num 0"

text \<open>
  \<^verbatim>\<open>parseFloat(v)\<close> for an argument \<open>v\<close> that is a number: the number is written
  out and read back, which returns it. A numeric string stands for the number it
  denotes, and text that is no number for \<open>NaN\<close>, which is what both \<^verbatim>\<open>parseFloat\<close>
  and the comparison operators make of it. Strings that the two read differently (the
  empty string, a number followed by other text) are outside the model.
\<close>

definition parseFloat :: "number \<Rightarrow> number" where
  "parseFloat v = v"

section \<open>The calculator\<close>

text \<open>The object returned by \<^verbatim>\<open>calculateMortgage\<close>.\<close>

record summary =
  monthlyPayment :: number
  totalPayment :: number
  totalInterest :: number
  principalAmount :: number
  interestPercentage :: number
  principalPercentage :: number

text \<open>\<^verbatim>\<open>const r = parseFloat(annualRate) / 12 / 100\<close>\<close>

definition monthlyRate :: "number \<Rightarrow> number" where
  "monthlyRate annualRate = num_div (num_div (parseFloat annualRate) (Num 12)) (Num 100)"

text \<open>\<^verbatim>\<open>const n = parseFloat(years) * 12\<close>\<close>

definition numPayments :: "number \<Rightarrow> number" where
  "numPayments years = num_mul (parseFloat years) (Num 12)"

text \<open>
  The guard \<^verbatim>\<open>P <= 0 || annualRate < 0 || years <= 0\<close>: the principal is compared
  after parsing, the rate and the term as they were passed.
\<close>

definition invalidInputs :: "number \<Rightarrow> number \<Rightarrow> number \<Rightarrow> bool" where
  "invalidInputs P annualRate years =
     (num_le P (Num 0) \<or> num_lt annualRate (Num 0) \<or> num_le years (Num 0))"

text \<open>\<^verbatim>\<open>const numerator = r * Math.pow(1 + r, n)\<close>\<close>

definition numerator :: "number \<Rightarrow> number \<Rightarrow> number" where
  "numerator r n = num_mul r (Math_pow (num_add (Num 1) r) n)"

text \<open>\<^verbatim>\<open>const denominator = Math.pow(1 + r, n) - 1\<close>\<close>

definition denominator :: "number \<Rightarrow> number \<Rightarrow> number" where
  "denominator r n = num_sub (Math_pow (num_add (Num 1) r) n) (Num 1)"

text \<open>The two branches that assign \<^verbatim>\<open>monthlyPayment\<close>.\<close>

definition payment :: "number \<Rightarrow> number \<Rightarrow> number \<Rightarrow> number" where
  "payment P r n =
     (if strict_eq r (Num 0) then num_div P n
      else num_mul P (num_div (numerator r n) (denominator r n)))"

text \<open>\<^verbatim>\<open>function calculateMortgage(principal, annualRate, years)\<close>; \<open>None\<close> is \<^verbatim>\<open>null\<close>.\<close>

definition calculateMortgage :: "number \<Rightarrow> number \<Rightarrow> number \<Rightarrow> summary option" where
  "calculateMortgage principal' annualRate years =
     (let P = parseFloat principal';
          r = monthlyRate annualRate;
          n = numPayments years
      in if invalidInputs P annualRate years then None
         else
           let monthly = payment P r n;
               total = num_mul monthly n;
               interest = num_sub total P;
               principalAmt = P
           in Some \<lparr> monthlyPayment = monthly,
                     totalPayment = total,
                     totalInterest = interest,
                     principalAmount = principalAmt,
                     interestPercentage = num_mul (num_div interest total) (Num 100),
                     principalPercentage = num_mul (num_div principalAmt total) (Num 100) \<rparr>)"

section \<open>Reading the results\<close>

text \<open>\<open>near v c tol\<close>: the number \<open>v\<close> is finite and at most \<open>tol\<close> away from \<open>c\<close>.\<close>

definition near :: "number \<Rightarrow> real \<Rightarrow> real \<Rightarrow> bool" where
  "near v c tol = (case v of Num x \<Rightarrow> \<bar>x - c\<bar> \<le> tol | _ \<Rightarrow> False)"




text \<open>
  \<open>enclosed v lo hi\<close>: the number \<open>v\<close> is finite and lies between \<open>lo\<close> and \<open>hi\<close>.
\<close>

definition enclosed :: "number \<Rightarrow> real \<Rightarrow> real \<Rightarrow> bool" where
  "enclosed v lo hi = (case v of Num x \<Rightarrow> lo \<le> x \<and> x \<le> hi | _ \<Rightarrow> False)"


section \<open>Rounding\<close>

lemma two_powr_of_int: "(2::real) powr (of_int e) = 2 powi e"
  by (simp add: powr_real_of_int')

lemma floor_log2_eq:
  assumes "2 powi e \<le> \<bar>x\<bar>" "\<bar>x\<bar> < 2 powi (e + 1)"
  shows "\<lfloor>log 2 \<bar>x\<bar>\<rfloor> = e"
proof -
  have "(0::real) < 2 powi e" by simp
  then have pos: "0 < \<bar>x\<bar>" using assms(1) by linarith
  have "2 powr (of_int e) \<le> \<bar>x\<bar>" using assms(1) by (simp only: two_powr_of_int)
  then have lo: "of_int e \<le> log 2 \<bar>x\<bar>" using pos le_log_iff [of 2 "\<bar>x\<bar>" "of_int e"] by simp
  have "\<bar>x\<bar> < 2 powr (of_int (e + 1))" using assms(2) by (simp only: two_powr_of_int)
  then have "log 2 \<bar>x\<bar> < of_int (e + 1)"
    using pos log_less_iff [of 2 "\<bar>x\<bar>" "of_int (e + 1)"] by simp
  then have hi: "log 2 \<bar>x\<bar> < of_int e + 1" by simp
  show ?thesis using lo hi by (rule floor_unique)
qed

lemma floor_log2_bounds:
  assumes "x \<noteq> 0"
  shows "2 powi \<lfloor>log 2 \<bar>x\<bar>\<rfloor> \<le> \<bar>x\<bar> \<and> \<bar>x\<bar> < 2 powi (\<lfloor>log 2 \<bar>x\<bar>\<rfloor> + 1)"
proof -
  have pos: "0 < \<bar>x\<bar>" using assms by simp
  define e where "e = \<lfloor>log 2 \<bar>x\<bar>\<rfloor>"
  have "of_int e \<le> log 2 \<bar>x\<bar>" by (simp add: e_def)
  then have "2 powr (of_int e) \<le> \<bar>x\<bar>"
    using pos le_log_iff [of 2 "\<bar>x\<bar>" "of_int e"] by simp
  then have lo: "2 powi e \<le> \<bar>x\<bar>" by (simp only: two_powr_of_int)
  have "log 2 \<bar>x\<bar> < of_int (e + 1)" unfolding e_def by linarith
  then have "\<bar>x\<bar> < 2 powr (of_int (e + 1))"
    using pos log_less_iff [of 2 "\<bar>x\<bar>" "of_int (e + 1)"] by simp
  then have hi: "\<bar>x\<bar> < 2 powi (e + 1)" by (simp only: two_powr_of_int)
  show ?thesis using lo hi by (simp add: e_def)
qed

lemma ulp_pos: "0 < ulp x"
  by (simp add: ulp_def)

lemma round_even_err: "\<bar>of_int (round_even q) - q\<bar> \<le> 1 / 2"
proof -
  have "of_int \<lfloor>q\<rfloor> \<le> q" "q < of_int \<lfloor>q\<rfloor> + 1" by linarith+
  then show ?thesis by (auto simp add: round_even_def Let_def)
qed

lemma round_even_of_int: "round_even (of_int k) = k"
  by (simp add: round_even_def)

lemma round_even_ge: "of_int k \<le> q \<Longrightarrow> k \<le> round_even q"
proof -
  assume "of_int k \<le> q"
  then have "k \<le> \<lfloor>q\<rfloor>" by (simp add: le_floor_iff)
  then show ?thesis by (auto simp add: round_even_def Let_def)
qed

lemma round_even_le: "q \<le> of_int k \<Longrightarrow> round_even q \<le> k"
proof (cases "q = of_int k")
  case True
  then show ?thesis by (simp add: round_even_of_int)
next
  case False
  assume "q \<le> of_int k"
  then have "q < of_int k" using False by simp
  then have "\<lfloor>q\<rfloor> < k" by (simp add: floor_less_iff)
  then show ?thesis by (auto simp add: round_even_def Let_def)
qed

lemma binade_ge: "- 1022 \<le> binade x"
  by (simp add: binade_def)

lemma binade_normal:
  assumes "2 powi (- 1022) \<le> \<bar>x\<bar>"
  shows "binade x = \<lfloor>log 2 \<bar>x\<bar>\<rfloor>"
proof -
  have "(0::real) < 2 powi (- 1022)" by (rule zero_less_power_int) simp
  then have pos: "0 < \<bar>x\<bar>" using assms by linarith
  have "2 powr (of_int (- 1022)) \<le> \<bar>x\<bar>" using assms by (simp only: two_powr_of_int)
  then have "of_int (- 1022) \<le> log 2 \<bar>x\<bar>"
    using pos le_log_iff [of 2 "\<bar>x\<bar>" "of_int (- 1022)"] by simp
  then have "- 1022 \<le> \<lfloor>log 2 \<bar>x\<bar>\<rfloor>" by (simp only: le_floor_iff)
  then show ?thesis by (simp add: binade_def)
qed

lemma binade_subnormal:
  assumes "x \<noteq> 0" "\<bar>x\<bar> < 2 powi (- 1022)"
  shows "binade x = - 1022"
proof -
  have pos: "0 < \<bar>x\<bar>" using assms by simp
  have "\<bar>x\<bar> < 2 powr (of_int (- 1022))" using assms(2) by (simp only: two_powr_of_int)
  then have "log 2 \<bar>x\<bar> < of_int (- 1022)"
    using pos log_less_iff [of 2 "\<bar>x\<bar>" "of_int (- 1022)"] by simp
  then have "\<lfloor>log 2 \<bar>x\<bar>\<rfloor> < - 1022" by (simp only: floor_less_iff)
  then show ?thesis by (simp add: binade_def)
qed

lemma binade_eq:
  assumes "2 powi e \<le> \<bar>x\<bar>" "\<bar>x\<bar> < 2 powi (e + 1)" "- 1022 \<le> e"
  shows "binade x = e"
  using floor_log2_eq [OF assms(1,2)] assms(3) by (simp add: binade_def)


lemma above_binade_start:
  assumes "2 powi (- 1022) \<le> \<bar>x\<bar>"
  shows "2 powi (binade x) \<le> \<bar>x\<bar>"
proof -
  have "(0::real) < 2 powi (- 1022)" by (rule zero_less_power_int) simp
  then have "x \<noteq> 0" using assms by auto
  then show ?thesis using floor_log2_bounds [of x] binade_normal [OF assms] by simp
qed

lemma ulp_binade: "ulp x * 2 ^ 52 = 2 powi (binade x)"
proof -
  have "(2::real) powi (binade x) = 2 powi ((binade x - 52) + 52)" by simp
  also have "\<dots> = 2 powi (binade x - 52) * 2 powi 52"
    by (rule power_int_add) simp
  finally show ?thesis by (simp add: ulp_def)
qed

lemmas fl_rounded = fl_def

lemma rounded_err: "\<bar>rounded x - x\<bar> \<le> ulp x / 2"
proof -
  have u: "0 < ulp x" by (rule ulp_pos)
  have "\<bar>of_int (round_even (x / ulp x)) - x / ulp x\<bar> \<le> 1 / 2" by (rule round_even_err)
  then have "\<bar>of_int (round_even (x / ulp x)) - x / ulp x\<bar> * ulp x \<le> 1 / 2 * ulp x"
    using u by (intro mult_right_mono) simp_all
  moreover have "\<bar>of_int (round_even (x / ulp x)) - x / ulp x\<bar> * ulp x = \<bar>rounded x - x\<bar>"
  proof -
    have "\<bar>of_int (round_even (x / ulp x)) - x / ulp x\<bar> * ulp x
        = \<bar>(of_int (round_even (x / ulp x)) - x / ulp x) * ulp x\<bar>"
      using u by (simp add: abs_mult)
    also have "(of_int (round_even (x / ulp x)) - x / ulp x) * ulp x = rounded x - x"
      using u by (simp add: rounded_def algebra_simps)
    finally show ?thesis .
  qed
  ultimately show ?thesis by simp
qed

text \<open>A multiple of the unit in the last place below \<open>x\<close> stays below its rounding.\<close>

lemma rounded_ge:
  assumes "of_int k * ulp x \<le> x"
  shows "of_int k * ulp x \<le> rounded x"
proof -
  have u: "0 < ulp x" by (rule ulp_pos)
  have "of_int k \<le> x / ulp x" using assms u by (simp add: pos_le_divide_eq)
  then have "k \<le> round_even (x / ulp x)" by (rule round_even_ge)
  then have "(of_int k :: real) \<le> of_int (round_even (x / ulp x))" by simp
  then show ?thesis unfolding rounded_def using u by (intro mult_right_mono) simp_all
qed

lemma rounded_le:
  assumes "x \<le> of_int k * ulp x"
  shows "rounded x \<le> of_int k * ulp x"
proof -
  have u: "0 < ulp x" by (rule ulp_pos)
  have "x / ulp x \<le> of_int k" using assms u by (simp add: pos_divide_le_eq)
  then have "round_even (x / ulp x) \<le> k" by (rule round_even_le)
  then have "(of_int (round_even (x / ulp x)) :: real) \<le> of_int k" by simp
  then show ?thesis unfolding rounded_def using u by (intro mult_right_mono) simp_all
qed

lemma rounded_exact:
  assumes "x = of_int k * ulp x"
  shows "rounded x = x"
  using rounded_ge [of k x] rounded_le [of x k] assms by simp

lemma ulp_normal:
  assumes "2 powi (- 1022) \<le> \<bar>x\<bar>"
  shows "ulp x \<le> \<bar>x\<bar> / 2 ^ 52"
proof -
  have "ulp x * 2 ^ 52 \<le> \<bar>x\<bar>" using above_binade_start [OF assms] by (simp only: ulp_binade)
  then show ?thesis by (simp add: pos_le_divide_eq)
qed

lemma ulp_subnormal:
  assumes "x \<noteq> 0" "\<bar>x\<bar> < 2 powi (- 1022)"
  shows "ulp x = 2 powi (- 1074)"
  using binade_subnormal [OF assms] by (simp add: ulp_def)

lemma fl_finite:
  assumes "\<bar>rounded x\<bar> < 2 ^ 1024"
  shows "fl x = Num (rounded x)"
proof (cases "x = 0")
  case True
  then show ?thesis by (simp add: fl_def rounded_def round_even_def)
next
  case False
  have "\<not> 2 ^ 1024 \<le> rounded x" "\<not> rounded x \<le> - (2 ^ 1024)" using assms by linarith+
  then show ?thesis using False by (simp only: fl_rounded if_False)
qed

text \<open>The relative error of rounding in the normal range.\<close>

lemma fl_rel:
  assumes "2 powi (- 1022) \<le> \<bar>x\<bar>" "\<bar>x\<bar> \<le> 2 ^ 1023"
  shows "\<exists>y. fl x = Num y \<and> \<bar>y - x\<bar> \<le> \<bar>x\<bar> / 2 ^ 53"
proof -
  have "\<bar>rounded x - x\<bar> \<le> ulp x / 2" by (rule rounded_err)
  also have "\<dots> \<le> (\<bar>x\<bar> / 2 ^ 52) / 2" using ulp_normal [OF assms(1)] by simp
  also have "\<dots> = \<bar>x\<bar> / 2 ^ 53" by simp
  finally have err: "\<bar>rounded x - x\<bar> \<le> \<bar>x\<bar> / 2 ^ 53" .
  have "\<bar>x\<bar> / 2 ^ 53 \<le> \<bar>x\<bar> / 2" by (intro divide_left_mono) simp_all
  then have "\<bar>rounded x\<bar> \<le> \<bar>x\<bar> + \<bar>x\<bar> / 2" using err by linarith
  also have "\<dots> \<le> 2 ^ 1023 + 2 ^ 1023 / 2" using assms(2) by linarith
  also have "\<dots> < 2 * 2 ^ 1023" by simp
  finally have "\<bar>rounded x\<bar> < 2 ^ 1024" by simp
  then have "fl x = Num (rounded x)" by (rule fl_finite)
  then show ?thesis using err by blast
qed

text \<open>The error of rounding anywhere below the overflow threshold.\<close>

lemma fl_abs:
  assumes "\<bar>x\<bar> \<le> 2 ^ 1023"
  shows "\<exists>y. fl x = Num y \<and> \<bar>y - x\<bar> \<le> \<bar>x\<bar> / 2 ^ 53 + 2 powi (- 1075)"
proof (cases "2 powi (- 1022) \<le> \<bar>x\<bar>")
  case True
  obtain y where y: "fl x = Num y" "\<bar>y - x\<bar> \<le> \<bar>x\<bar> / 2 ^ 53"
    using fl_rel [OF True assms] by blast
  have "(0::real) \<le> 2 powi (- 1075)" by simp
  then have "\<bar>y - x\<bar> \<le> \<bar>x\<bar> / 2 ^ 53 + 2 powi (- 1075)" using y(2) by linarith
  then show ?thesis using y(1) by blast
next
  case False
  then have small: "\<bar>x\<bar> < 2 powi (- 1022)" by simp
  show ?thesis
  proof (cases "x = 0")
    case True
    then show ?thesis by (simp add: fl_def)
  next
    case nz: False
    have u: "ulp x = 2 powi (- 1074)" using nz small by (rule ulp_subnormal)
    have "(2::real) powi (- 1074) = 2 powi (- 1075 + 1)" by simp
    also have "\<dots> = 2 powi (- 1075) * 2" by (subst power_int_add) simp_all
    finally have half: "(2::real) powi (- 1074) / 2 = 2 powi (- 1075)" by simp
    have err: "\<bar>rounded x - x\<bar> \<le> 2 powi (- 1075)"
      using rounded_err [of x] by (simp only: u half)
    have "(2::real) powi (- 1075) \<le> 2 powi 0" by (rule power_int_increasing) simp_all
    moreover have "(2::real) powi (- 1022) \<le> 2 powi 0" by (rule power_int_increasing) simp_all
    ultimately have "\<bar>rounded x\<bar> \<le> 2" using err small by (simp only: power_int_0_right)
    also have "(2::real) < 2 ^ 1024" by simp
    finally have f: "fl x = Num (rounded x)" by (rule fl_finite)
    have "0 \<le> \<bar>x\<bar> / 2 ^ 53" by simp
    then have "\<bar>rounded x - x\<bar> \<le> \<bar>x\<bar> / 2 ^ 53 + 2 powi (- 1075)" using err by linarith
    then show ?thesis using f by blast
  qed
qed

lemma round_even_below_half:
  assumes "of_int k \<le> q" "q < of_int k + 1 / 2"
  shows "round_even q = k"
proof -
  have "\<lfloor>q\<rfloor> = k" using assms by (intro floor_unique) linarith+
  then show ?thesis using assms by (simp add: round_even_def Let_def)
qed

lemma pow2_less_imp: "(2::real) powi a < 2 powi b \<Longrightarrow> a < b"
proof (rule ccontr)
  assume lt: "(2::real) powi a < 2 powi b" and "\<not> a < b"
  then have "b \<le> a" by simp
  then have "(2::real) powi b \<le> 2 powi a" by (intro power_int_increasing) simp_all
  then show False using lt by linarith
qed

lemma binade_le:
  assumes "x \<noteq> 0" "\<bar>x\<bar> < 2 powi (k + 1)" "- 1022 \<le> k"
  shows "binade x \<le> k"
proof -
  have "2 powi \<lfloor>log 2 \<bar>x\<bar>\<rfloor> \<le> \<bar>x\<bar>" using floor_log2_bounds [OF assms(1)] by simp
  then have "(2::real) powi \<lfloor>log 2 \<bar>x\<bar>\<rfloor> < 2 powi (k + 1)" using assms(2) by linarith
  then have "\<lfloor>log 2 \<bar>x\<bar>\<rfloor> < k + 1" by (rule pow2_less_imp)
  then show ?thesis using assms(3) by (simp add: binade_def)
qed







text \<open>Evaluating a rounding: the binade \<open>e\<close> and the integer \<open>m\<close> are given.\<close>

lemma fl_eval:
  assumes "2 powi e \<le> \<bar>x\<bar>" "\<bar>x\<bar> < 2 powi (e + 1)" "- 1022 \<le> e"
    and "round_even (x / 2 powi (e - 52)) = m"
    and "\<bar>of_int m * 2 powi (e - 52) :: real\<bar> < 2 ^ 1024"
  shows "fl x = Num (of_int m * 2 powi (e - 52))"
proof -
  have "binade x = e" using assms(1-3) by (rule binade_eq)
  then have r: "rounded x = of_int m * 2 powi (e - 52)"
    using assms(4) by (simp only: rounded_def ulp_def)
  have "\<bar>rounded x\<bar> < 2 ^ 1024" using assms(5) by (simp only: r)
  then have "fl x = Num (rounded x)" by (rule fl_finite)
  then show ?thesis by (simp only: r)
qed

lemma fl_eval_subnormal:
  assumes "x \<noteq> 0" "\<bar>x\<bar> < 2 powi (- 1022)"
    and "round_even (x / 2 powi (- 1074)) = m"
    and "\<bar>of_int m * 2 powi (- 1074) :: real\<bar> < 2 ^ 1024"
  shows "fl x = Num (of_int m * 2 powi (- 1074))"
proof -
  have "ulp x = 2 powi (- 1074)" using assms(1,2) by (rule ulp_subnormal)
  then have r: "rounded x = of_int m * 2 powi (- 1074)"
    using assms(3) by (simp only: rounded_def)
  have "\<bar>rounded x\<bar> < 2 ^ 1024" using assms(4) by (simp only: r)
  then have "fl x = Num (rounded x)" by (rule fl_finite)
  then show ?thesis by (simp only: r)
qed

text \<open>A value with at most 53 significant bits is not changed by rounding.\<close>

lemma fl_dyadic:
  assumes "\<bar>m\<bar> < 2 ^ 53" "- 1074 \<le> j" "j \<le> 970"
  shows "fl (of_int m * 2 powi j) = Num (of_int m * 2 powi j)"
proof (cases "m = 0")
  case True
  then show ?thesis by (simp add: fl_def)
next
  case False
  define x :: real where "x = of_int m * 2 powi j"
  have nz: "x \<noteq> 0" using False by (simp add: x_def)
  have am: "\<bar>of_int m :: real\<bar> < 2 ^ 53" using assms(1) by (metis of_int_abs of_int_less_numeral_power_cancel_iff)
  have "\<bar>x\<bar> = \<bar>of_int m\<bar> * 2 powi j" by (simp add: x_def abs_mult)
  also have "\<dots> < 2 ^ 53 * 2 powi j" using am by (intro mult_strict_right_mono) simp_all
  also have "\<dots> = 2 powi (53 + j)" by (subst power_int_add) simp_all
  finally have ub: "\<bar>x\<bar> < 2 powi ((j + 52) + 1)" by (simp add: add.commute)
  have b: "binade x \<le> j + 52" using nz ub by (rule binade_le) (use assms(2) in simp)
  define n where "n = nat (j + 52 - binade x)"
  have "(2::real) powi j = 2 powi ((j + 52 - binade x) + (binade x - 52))" by simp
  also have "\<dots> = 2 powi (j + 52 - binade x) * 2 powi (binade x - 52)"
    by (rule power_int_add) simp
  also have "(2::real) powi (j + 52 - binade x) = 2 ^ n" using b by (simp add: power_int_def n_def)
  finally have "x = of_int (m * 2 ^ n) * ulp x" by (simp add: x_def ulp_def)
  then have r: "rounded x = x" by (rule rounded_exact)
  have "(2::real) powi ((j + 52) + 1) \<le> 2 powi 1023"
    using assms(3) by (intro power_int_increasing) simp_all
  then have "\<bar>x\<bar> < 2 ^ 1023" using ub by simp
  also have "(2::real) ^ 1023 < 2 ^ 1024" by simp
  finally have "\<bar>rounded x\<bar> < 2 ^ 1024" by (simp only: r)
  then have "fl x = Num (rounded x)" by (rule fl_finite)
  then have "fl x = Num x" by (simp only: r)
  then show ?thesis by (simp only: x_def)
qed

lemma fl_int:
  assumes "\<bar>m\<bar> < 2 ^ 53"
  shows "fl (of_int m) = Num (of_int m)"
  using fl_dyadic [of m 0] assms by simp

section \<open>Auxiliary facts\<close>

lemma fl_zero: "fl 0 = Num 0"
  by (simp add: fl_def)

lemma num_add_NaN_right: "num_add v NaN = NaN"
  by (cases v) simp_all

lemma num_mul_NaN_right: "num_mul v NaN = NaN"
  by (cases v) simp_all

lemma num_div_NaN_right: "num_div v NaN = NaN"
  by (cases v) simp_all

lemma num_sub_NaN: "num_sub NaN v = NaN" "num_sub v NaN = NaN"
  by (simp_all add: num_sub_def num_add_NaN_right)

lemma guard_real:
  "invalidInputs (Num P) (Num R) (Num T) \<longleftrightarrow> P \<le> 0 \<or> R < 0 \<or> T \<le> 0"
  by (auto simp add: invalidInputs_def num_le_def)

text \<open>The summary of a valid call, in terms of the rate, the count and the payment.\<close>

lemma calc_valid:
  assumes "0 < P" "0 \<le> R" "0 < T"
  shows "calculateMortgage (Num P) (Num R) (Num T) =
    Some \<lparr> monthlyPayment = payment (Num P) (monthlyRate (Num R)) (numPayments (Num T)),
      totalPayment =
        num_mul (payment (Num P) (monthlyRate (Num R)) (numPayments (Num T))) (numPayments (Num T)),
      totalInterest =
        num_sub (num_mul (payment (Num P) (monthlyRate (Num R)) (numPayments (Num T)))
                   (numPayments (Num T))) (Num P),
      principalAmount = Num P,
      interestPercentage =
        num_mul (num_div
            (num_sub (num_mul (payment (Num P) (monthlyRate (Num R)) (numPayments (Num T)))
                       (numPayments (Num T))) (Num P))
            (num_mul (payment (Num P) (monthlyRate (Num R)) (numPayments (Num T)))
               (numPayments (Num T)))) (Num 100),
      principalPercentage =
        num_mul (num_div (Num P)
            (num_mul (payment (Num P) (monthlyRate (Num R)) (numPayments (Num T)))
               (numPayments (Num T)))) (Num 100) \<rparr>"
  using assms by (simp add: calculateMortgage_def guard_real parseFloat_def Let_def)

section \<open>Enclosures\<close>

text \<open>
  Intervals carried through the rounded operations, for values of moderate size.
\<close>

lemma enclosed_Num: "enclosed (Num x) lo hi \<longleftrightarrow> lo \<le> x \<and> x \<le> hi"
  by (simp add: enclosed_def)

lemma enclosedE:
  assumes "enclosed v lo hi"
  obtains x where "v = Num x" "lo \<le> x" "x \<le> hi"
  using assms by (cases v) (simp_all add: enclosed_def)

text \<open>Rounding a value enclosed in a moderate positive interval.\<close>

lemma fl_within:
  assumes "lo \<le> x" "x \<le> hi" "1 / 2 ^ 20 \<le> lo" "hi \<le> 2 ^ 40"
    and "lo' \<le> lo * (1 - 1 / 2 ^ 53)" "hi * (1 + 1 / 2 ^ 53) \<le> hi'"
  shows "enclosed (fl x) lo' hi'"
proof -
  have "(0::real) < 1 / 2 ^ 20" by simp
  then have xpos: "0 < x" using assms(1,3) by linarith
  have "(2::real) powi (- 1022) \<le> 2 powi (- 20)" by (rule power_int_increasing) simp_all
  also have "(2::real) powi (- 20) = 1 / 2 ^ 20" by simp
  finally have n: "2 powi (- 1022) \<le> \<bar>x\<bar>" using assms(1,3) xpos by simp
  have "(2::real) ^ 40 \<le> 2 ^ 1023" by (rule power_increasing) simp_all
  then have m: "\<bar>x\<bar> \<le> 2 ^ 1023" using assms(2,4) xpos by simp
  obtain y where y: "fl x = Num y" "\<bar>y - x\<bar> \<le> \<bar>x\<bar> / 2 ^ 53"
    using fl_rel [OF n m] by blast
  have e: "\<bar>y - x\<bar> \<le> x / 2 ^ 53" using y(2) xpos by simp
  have l: "lo * (1 - 1 / 2 ^ 53) \<le> x * (1 - 1 / 2 ^ 53)"
    using assms(1) by (intro mult_right_mono) simp_all
  have h: "x * (1 + 1 / 2 ^ 53) \<le> hi * (1 + 1 / 2 ^ 53)"
    using assms(2) by (intro mult_right_mono) simp_all
  have "x * (1 - 1 / 2 ^ 53) = x - x / 2 ^ 53" by (simp add: algebra_simps)
  then have yl: "x * (1 - 1 / 2 ^ 53) \<le> y" using e by linarith
  have "x * (1 + 1 / 2 ^ 53) = x + x / 2 ^ 53" by (simp add: algebra_simps)
  then have yh: "y \<le> x * (1 + 1 / 2 ^ 53)" using e by linarith
  have "lo' \<le> y" using assms(5) l yl by linarith
  moreover have "y \<le> hi'" using assms(6) h yh by linarith
  ultimately have "lo' \<le> y \<and> y \<le> hi'" by simp
  then show ?thesis by (simp add: y(1) enclosed_def)
qed

lemma enclosed_mul:
  assumes "enclosed a la ha" "enclosed b lb hb" "0 < la" "0 < lb"
    and "1 / 2 ^ 20 \<le> la * lb" "ha * hb \<le> 2 ^ 40"
    and "lo' \<le> la * lb * (1 - 1 / 2 ^ 53)" "ha * hb * (1 + 1 / 2 ^ 53) \<le> hi'"
  shows "enclosed (num_mul a b) lo' hi'"
proof -
  obtain x where x: "a = Num x" "la \<le> x" "x \<le> ha" using assms(1) by (rule enclosedE)
  obtain y where y: "b = Num y" "lb \<le> y" "y \<le> hb" using assms(2) by (rule enclosedE)
  have "la * lb \<le> x * y" using x y assms(3,4) by (intro mult_mono) simp_all
  moreover have "x * y \<le> ha * hb" using x y assms(3,4) by (intro mult_mono) simp_all
  ultimately have "enclosed (fl (x * y)) lo' hi'" using assms(5-8) by (rule fl_within)
  then show ?thesis by (simp add: x(1) y(1))
qed

lemma enclosed_div:
  assumes "enclosed a la ha" "enclosed b lb hb" "0 < la" "0 < lb"
    and "1 / 2 ^ 20 \<le> la / hb" "ha / lb \<le> 2 ^ 40"
    and "lo' \<le> la / hb * (1 - 1 / 2 ^ 53)" "ha / lb * (1 + 1 / 2 ^ 53) \<le> hi'"
  shows "enclosed (num_div a b) lo' hi'"
proof -
  obtain x where x: "a = Num x" "la \<le> x" "x \<le> ha" using assms(1) by (rule enclosedE)
  obtain y where y: "b = Num y" "lb \<le> y" "y \<le> hb" using assms(2) by (rule enclosedE)
  have ypos: "0 < y" using y assms(4) by simp
  have "la / hb \<le> x / y" using x y assms(3,4) ypos by (intro frac_le) simp_all
  moreover have "x / y \<le> ha / lb" using x y assms(3,4) ypos by (intro frac_le) simp_all
  ultimately have "enclosed (fl (x / y)) lo' hi'" using assms(5-8) by (rule fl_within)
  then show ?thesis using ypos by (simp add: x(1) y(1))
qed

lemma enclosed_add:
  assumes "enclosed a la ha" "enclosed b lb hb"
    and "1 / 2 ^ 20 \<le> la + lb" "ha + hb \<le> 2 ^ 40"
    and "lo' \<le> (la + lb) * (1 - 1 / 2 ^ 53)" "(ha + hb) * (1 + 1 / 2 ^ 53) \<le> hi'"
  shows "enclosed (num_add a b) lo' hi'"
proof -
  obtain x where x: "a = Num x" "la \<le> x" "x \<le> ha" using assms(1) by (rule enclosedE)
  obtain y where y: "b = Num y" "lb \<le> y" "y \<le> hb" using assms(2) by (rule enclosedE)
  have "la + lb \<le> x + y" "x + y \<le> ha + hb" using x y by simp_all
  then have "enclosed (fl (x + y)) lo' hi'" using assms(3-6) by (rule fl_within)
  then show ?thesis by (simp add: x(1) y(1))
qed

lemma enclosed_sub:
  assumes "enclosed a la ha" "enclosed b lb hb"
    and "1 / 2 ^ 20 \<le> la - hb" "ha - lb \<le> 2 ^ 40"
    and "lo' \<le> (la - hb) * (1 - 1 / 2 ^ 53)" "(ha - lb) * (1 + 1 / 2 ^ 53) \<le> hi'"
  shows "enclosed (num_sub a b) lo' hi'"
proof -
  obtain x where x: "a = Num x" "la \<le> x" "x \<le> ha" using assms(1) by (rule enclosedE)
  obtain y where y: "b = Num y" "lb \<le> y" "y \<le> hb" using assms(2) by (rule enclosedE)
  have "la - hb \<le> x + - y" "x + - y \<le> ha - lb" using x y by simp_all
  then have "enclosed (fl (x + - y)) lo' hi'" using assms(3-6) by (rule fl_within)
  then show ?thesis by (simp add: x(1) y(1) num_sub_def)
qed

lemma enclosed_pow:
  assumes "enclosed a la ha" "0 < la" "k \<noteq> 0"
    and "lp \<le> la ^ k" "ha ^ k \<le> hp"
    and "1 / 2 ^ 20 \<le> lp" "hp \<le> 2 ^ 40"
    and "lo' \<le> lp * (1 - 1 / 2 ^ 53)" "hp * (1 + 1 / 2 ^ 53) \<le> hi'"
  shows "enclosed (Math_pow a (Num (of_nat k))) lo' hi'"
proof -
  obtain x where x: "a = Num x" "la \<le> x" "x \<le> ha" using assms(1) by (rule enclosedE)
  have xpos: "0 < x" using x assms(2) by simp
  have p: "x powr (of_nat k) = x ^ k" using xpos by (simp add: powr_realpow)
  have "la ^ k \<le> x ^ k" using x assms(2) by (intro power_mono) simp_all
  then have lo: "lp \<le> x ^ k" using assms(4) by linarith
  have "x ^ k \<le> ha ^ k" using x xpos by (intro power_mono) simp_all
  then have hi: "x ^ k \<le> hp" using assms(5) by linarith
  have "enclosed (fl (x ^ k)) lo' hi'" using lo hi assms(6-9) by (rule fl_within)
  then show ?thesis using xpos assms(3) by (simp add: x(1) p)
qed

lemma enclosed_near:
  assumes "enclosed v lo hi" "c - tol \<le> lo" "hi \<le> c + tol"
  shows "near v c tol"
  using assms by (cases v) (simp_all add: enclosed_def near_def abs_le_iff)

section \<open>The operations of the example scenario\<close>

lemma enclosed_const: "enclosed (Num c) c c"
  by (simp add: enclosed_def)

lemma lower_square:
  fixes y :: real
  assumes "l \<le> y" "0 \<le> l" "l' \<le> l\<^sup>2"
  shows "l' \<le> y\<^sup>2"
proof -
  have "l\<^sup>2 \<le> y\<^sup>2" using assms by (intro power_mono) simp_all
  then show ?thesis using assms by linarith
qed

lemma upper_square:
  fixes y :: real
  assumes "y \<le> h" "0 \<le> y" "h\<^sup>2 \<le> h'"
  shows "y\<^sup>2 \<le> h'"
proof -
  have "y\<^sup>2 \<le> h\<^sup>2" using assms by (intro power_mono) simp_all
  then show ?thesis using assms by linarith
qed

lemma rate_step1:
  "enclosed (num_div (Num 8) (Num 12)) (666666666666666592651798 / 10 ^ 24) (666666666666666740681535 / 10 ^ 24)"
  by (rule enclosed_div [OF enclosed_const enclosed_const]) simp_all

lemma rate_example:
  "enclosed (monthlyRate (Num 8)) (6666666666666665186369 / 10 ^ 24) (6666666666666668146965 / 10 ^ 24)"
  unfolding monthlyRate_def parseFloat_def
  by (rule enclosed_div [OF rate_step1 enclosed_const]) simp_all

lemma base_example:
  "enclosed (num_add (Num 1) (monthlyRate (Num 8))) (1006666666666666553423917 / 10 ^ 24) (1006666666666666779909417 / 10 ^ 24)"
  by (rule enclosed_add [OF enclosed_const rate_example]) simp_all

lemma low_15:
  "1104804217766642853581747 / 10 ^ 24 \<le> (1006666666666666553423917 / 10 ^ 24 :: real) ^ 15"
  by (simp add: power_divide)

lemma low_30:
  "1220592359594963604727796 / 10 ^ 24 \<le> (1006666666666666553423917 / 10 ^ 24 :: real) ^ 30"
proof -
  have e: "(1006666666666666553423917 / 10 ^ 24 :: real) ^ 30 = ((1006666666666666553423917 / 10 ^ 24) ^ 15)\<^sup>2"
    by (simp flip: power_mult)
  have "(1220592359594963604727796 / 10 ^ 24 :: real) \<le> ((1006666666666666553423917 / 10 ^ 24) ^ 15)\<^sup>2"
    by (rule lower_square [OF low_15]) (simp_all add: power2_eq_square)
  then show ?thesis by (simp only: e)
qed

lemma low_60:
  "1489845708301600940981669 / 10 ^ 24 \<le> (1006666666666666553423917 / 10 ^ 24 :: real) ^ 60"
proof -
  have e: "(1006666666666666553423917 / 10 ^ 24 :: real) ^ 60 = ((1006666666666666553423917 / 10 ^ 24) ^ 30)\<^sup>2"
    by (simp flip: power_mult)
  have "(1489845708301600940981669 / 10 ^ 24 :: real) \<le> ((1006666666666666553423917 / 10 ^ 24) ^ 30)\<^sup>2"
    by (rule lower_square [OF low_30]) (simp_all add: power2_eq_square)
  then show ?thesis by (simp only: e)
qed

lemma low_120:
  "2219640234544698998991564 / 10 ^ 24 \<le> (1006666666666666553423917 / 10 ^ 24 :: real) ^ 120"
proof -
  have e: "(1006666666666666553423917 / 10 ^ 24 :: real) ^ 120 = ((1006666666666666553423917 / 10 ^ 24) ^ 60)\<^sup>2"
    by (simp flip: power_mult)
  have "(2219640234544698998991564 / 10 ^ 24 :: real) \<le> ((1006666666666666553423917 / 10 ^ 24) ^ 60)\<^sup>2"
    by (rule lower_square [OF low_60]) (simp_all add: power2_eq_square)
  then show ?thesis by (simp only: e)
qed

lemma low_240:
  "4926802770809646383459098 / 10 ^ 24 \<le> (1006666666666666553423917 / 10 ^ 24 :: real) ^ 240"
proof -
  have e: "(1006666666666666553423917 / 10 ^ 24 :: real) ^ 240 = ((1006666666666666553423917 / 10 ^ 24) ^ 120)\<^sup>2"
    by (simp flip: power_mult)
  have "(4926802770809646383459098 / 10 ^ 24 :: real) \<le> ((1006666666666666553423917 / 10 ^ 24) ^ 120)\<^sup>2"
    by (rule lower_square [OF low_120]) (simp_all add: power2_eq_square)
  then show ?thesis by (simp only: e)
qed

lemma upp_15:
  "(1006666666666666779909417 / 10 ^ 24 :: real) ^ 15 \<le> 1104804217766646582057279 / 10 ^ 24"
  by (simp add: power_divide)

lemma upp_30:
  "(1006666666666666779909417 / 10 ^ 24 :: real) ^ 30 \<le> 1220592359594971843198784 / 10 ^ 24"
proof -
  have e: "(1006666666666666779909417 / 10 ^ 24 :: real) ^ 30 = ((1006666666666666779909417 / 10 ^ 24) ^ 15)\<^sup>2"
    by (simp flip: power_mult)
  have "((1006666666666666779909417 / 10 ^ 24 :: real) ^ 15)\<^sup>2 \<le> 1220592359594971843198784 / 10 ^ 24"
    by (rule upper_square [OF upp_15]) (simp_all add: power2_eq_square)
  then show ?thesis by (simp only: e)
qed

lemma upp_60:
  "(1006666666666666779909417 / 10 ^ 24 :: real) ^ 60 \<le> 1489845708301621052611156 / 10 ^ 24"
proof -
  have e: "(1006666666666666779909417 / 10 ^ 24 :: real) ^ 60 = ((1006666666666666779909417 / 10 ^ 24) ^ 30)\<^sup>2"
    by (simp flip: power_mult)
  have "((1006666666666666779909417 / 10 ^ 24 :: real) ^ 30)\<^sup>2 \<le> 1489845708301621052611156 / 10 ^ 24"
    by (rule upper_square [OF upp_30]) (simp_all add: power2_eq_square)
  then show ?thesis by (simp only: e)
qed

lemma upp_120:
  "(1006666666666666779909417 / 10 ^ 24 :: real) ^ 120 \<le> 2219640234544758925441322 / 10 ^ 24"
proof -
  have e: "(1006666666666666779909417 / 10 ^ 24 :: real) ^ 120 = ((1006666666666666779909417 / 10 ^ 24) ^ 60)\<^sup>2"
    by (simp flip: power_mult)
  have "((1006666666666666779909417 / 10 ^ 24 :: real) ^ 60)\<^sup>2 \<le> 2219640234544758925441322 / 10 ^ 24"
    by (rule upper_square [OF upp_60]) (simp_all add: power2_eq_square)
  then show ?thesis by (simp only: e)
qed

lemma upp_240:
  "(1006666666666666779909417 / 10 ^ 24 :: real) ^ 240 \<le> 4926802770809912413777092 / 10 ^ 24"
proof -
  have e: "(1006666666666666779909417 / 10 ^ 24 :: real) ^ 240 = ((1006666666666666779909417 / 10 ^ 24) ^ 120)\<^sup>2"
    by (simp flip: power_mult)
  have "((1006666666666666779909417 / 10 ^ 24 :: real) ^ 120)\<^sup>2 \<le> 4926802770809912413777092 / 10 ^ 24"
    by (rule upper_square [OF upp_120]) (simp_all add: power2_eq_square)
  then show ?thesis by (simp only: e)
qed

lemma count_example: "numPayments (Num 20) = Num 240"
  using fl_int [of 240] by (simp add: numPayments_def parseFloat_def)

lemma growth_example:
  "enclosed (Math_pow (num_add (Num 1) (monthlyRate (Num 8))) (Num 240)) (492680277080964583647411 / 10 ^ 23) (4926802770809912960762080 / 10 ^ 24)"
  using enclosed_pow [OF base_example _ _ low_240 upp_240, of "492680277080964583647411 / 10 ^ 23" "4926802770809912960762080 / 10 ^ 24"] by simp

lemma numerator_example:
  "enclosed (numerator (monthlyRate (Num 8)) (Num 240)) (32845351805397627970126 / 10 ^ 24) (32845351805399430678119 / 10 ^ 24)"
  unfolding numerator_def
  by (rule enclosed_mul [OF rate_example growth_example]) simp_all

lemma denominator_example:
  "enclosed (denominator (monthlyRate (Num 8)) (Num 240)) (3926802770809645400511425 / 10 ^ 24) (3926802770809913396724765 / 10 ^ 24)"
  unfolding denominator_def
  by (rule enclosed_sub [OF growth_example enclosed_const]) simp_all

lemma factor_example:
  "enclosed (num_div (numerator (monthlyRate (Num 8)) (Num 240)) (denominator (monthlyRate (Num 8)) (Num 240))) (8364400689934112516989 / 10 ^ 24) (836440068993514430521 / 10 ^ 23)"
  by (rule enclosed_div [OF numerator_example denominator_example]) simp_all

lemma payment_step:
  "enclosed (num_mul (Num 1000000) (num_div (numerator (monthlyRate (Num 8)) (Num 240)) (denominator (monthlyRate (Num 8)) (Num 240)))) (8364400689934111588353976684 / 10 ^ 24) (8364400689935145233845023316 / 10 ^ 24)"
  by (rule enclosed_mul [OF enclosed_const factor_example]) simp_all

lemma rate_example_nonzero: "\<not> strict_eq (monthlyRate (Num 8)) (Num 0)"
  using rate_example by (cases "monthlyRate (Num 8)") (simp_all add: enclosed_def strict_eq_def)

lemma payment_example:
  "enclosed (payment (Num 1000000) (monthlyRate (Num 8)) (Num 240)) (8364400689934111588353976684 / 10 ^ 24) (8364400689935145233845023316 / 10 ^ 24)"
  using payment_step by (simp add: payment_def rate_example_nonzero)

lemma total_example:
  "enclosed (num_mul (payment (Num 1000000) (monthlyRate (Num 8)) (Num 240)) (Num 240)) (200745616558418655833254880843 / 10 ^ 23) (2007456165584435078995211191598 / 10 ^ 24)"
  by (rule enclosed_mul [OF payment_example enclosed_const]) simp_all

lemma interest_example:
  "enclosed (num_sub (num_mul (payment (Num 1000000) (monthlyRate (Num 8)) (Num 240)) (Num 240)) (Num 1000000)) (1007456165584186446482445675216 / 10 ^ 24) (1007456165584435190845314324840 / 10 ^ 24)"
  by (rule enclosed_sub [OF total_example enclosed_const]) simp_all

section \<open>Signs carried through the operations\<close>



















section \<open>Rounding errors of the zero-rate branch\<close>

text \<open>
  The rounding errors of the zero-rate branch, for a principal and a term between
  \<open>2^-500\<close> and \<open>2^500\<close>: the payment \<open>m\<close>, the total \<open>t\<close> and the interest \<open>i\<close>
  that the three roundings give.
\<close>

lemma zero_rate_errors:
  assumes "2 powi (- 500) \<le> P" "P \<le> 2 ^ 500" "2 powi (- 500) \<le> T" "T \<le> 2 ^ 500"
  shows "\<exists>k m t i. fl (T * 12) = Num k \<and> 0 < k \<and> fl (P / k) = Num m \<and> fl (m * k) = Num t
      \<and> fl (t + - P) = Num i
      \<and> \<bar>m - P / (T * 12)\<bar> \<le> P / (T * 12) / 2 ^ 50 \<and> \<bar>i\<bar> \<le> P / 2 ^ 50"
proof -
  define u :: real where "u = 1 / 2 ^ 53"
  define x where "x = T * 12"
  have lowpos: "(0::real) < 2 powi (- 500)" by (rule zero_less_power_int) simp
  have Ppos: "0 < P" and Tpos: "0 < T" using assms(1,3) lowpos by linarith+
  have upos: "0 < u" and uhalf: "u \<le> 1 / 2" by (simp_all add: u_def)
  have xpos: "0 < x" using Tpos by (simp add: x_def)
  have xlo: "2 powi (- 500) \<le> x" using assms(3) Tpos by (simp add: x_def)
  have xhi: "x \<le> 2 ^ 504"
  proof -
    have "x \<le> 2 ^ 500 * 12" using assms(4) by (simp add: x_def)
    also have "\<dots> \<le> 2 ^ 500 * (2 ^ 4 :: real)" by (intro mult_left_mono) simp_all
    also have "\<dots> = 2 ^ 504" by (simp flip: power_add)
    finally show ?thesis .
  qed
  have low: "(2::real) powi (- 1022) \<le> 2 powi (- 500)" by (rule power_int_increasing) simp_all
  have high: "(2::real) ^ 504 \<le> 2 ^ 1023" by (rule power_increasing) simp_all
  \<comment> \<open>the count\<close>
  have "2 powi (- 1022) \<le> \<bar>x\<bar>" "\<bar>x\<bar> \<le> 2 ^ 1023" using xlo xhi low high xpos by simp_all
  then obtain k where k: "fl x = Num k" "\<bar>k - x\<bar> \<le> \<bar>x\<bar> / 2 ^ 53" using fl_rel by blast
  have kx: "\<bar>k - x\<bar> \<le> x * u" using k(2) xpos by (simp add: u_def)
  have xu: "x * u \<le> x * (1 / 2)" using uhalf xpos by (intro mult_left_mono) simp_all
  have klo: "x / 2 \<le> k" and khi: "k \<le> 2 * x" using kx xu xpos by linarith+
  have kpos: "0 < k" using klo xpos by linarith
  \<comment> \<open>the payment\<close>
  define y where "y = P / k"
  have ypos: "0 < y" using Ppos kpos by (simp add: y_def)
  have yk: "y * k = P" using kpos by (simp add: y_def)
  have ylo: "2 powi (- 1022) \<le> y"
  proof -
    have "k \<le> 2 ^ 505" using khi xhi by simp
    then have a: "2 powi (- 500) / 2 ^ 505 \<le> P / k"
      using assms(1) kpos lowpos by (intro frac_le) simp_all
    have b: "(2::real) powi (- 1022) \<le> 2 powi (- 500) / 2 ^ 505" by simp
    show ?thesis unfolding y_def by (rule order_trans [OF b a])
  qed
  have yhi: "y \<le> 2 ^ 1023"
  proof -
    have "2 powi (- 500) / 2 \<le> k" using klo xlo by linarith
    then have a: "P / k \<le> 2 ^ 500 / (2 powi (- 500) / 2)"
      using assms(2) Ppos lowpos by (intro frac_le) simp_all
    have b: "(2::real) ^ 500 / (2 powi (- 500) / 2) \<le> 2 ^ 1023" by simp
    show ?thesis unfolding y_def by (rule order_trans [OF a b])
  qed
  have "2 powi (- 1022) \<le> \<bar>y\<bar>" "\<bar>y\<bar> \<le> 2 ^ 1023" using ylo yhi ypos by simp_all
  then obtain m where m: "fl y = Num m" "\<bar>m - y\<bar> \<le> \<bar>y\<bar> / 2 ^ 53" using fl_rel by blast
  have my: "\<bar>m - y\<bar> \<le> y * u" using m(2) ypos by (simp add: u_def)
  \<comment> \<open>the total\<close>
  define z where "z = m * k"
  have "\<bar>z - P\<bar> = \<bar>m - y\<bar> * k"
  proof -
    have "z - P = (m - y) * k" using yk by (simp add: z_def algebra_simps)
    then show ?thesis using kpos by (simp add: abs_mult)
  qed
  also have "\<dots> \<le> (y * u) * k" using my kpos by (intro mult_right_mono) simp_all
  also have "\<dots> = P * u" using yk by (simp add: algebra_simps)
  finally have zP: "\<bar>z - P\<bar> \<le> P * u" .
  have Pu: "P * u \<le> P * (1 / 2)" using uhalf Ppos by (intro mult_left_mono) simp_all
  have zlo: "P / 2 \<le> z" and zhi: "z \<le> 2 * P" using zP Pu Ppos by linarith+
  have zpos: "0 < z" using zlo Ppos by linarith
  have "2 powi (- 500) / 2 \<le> z" using zlo assms(1) by linarith
  moreover have "(2::real) powi (- 1022) \<le> 2 powi (- 500) / 2" by simp
  ultimately have zl: "2 powi (- 1022) \<le> \<bar>z\<bar>" using zpos by simp
  have "z \<le> 2 * 2 ^ 500" using zhi assms(2) by linarith
  moreover have "2 * (2::real) ^ 500 \<le> 2 ^ 1023" by simp
  ultimately have zh: "\<bar>z\<bar> \<le> 2 ^ 1023" using zpos by simp
  obtain t where t: "fl z = Num t" "\<bar>t - z\<bar> \<le> \<bar>z\<bar> / 2 ^ 53" using fl_rel [OF zl zh] by blast
  have "\<bar>t - z\<bar> \<le> z * u" using t(2) zpos by (simp add: u_def)
  also have "\<dots> \<le> (2 * P) * u" using zhi upos by (intro mult_right_mono) simp_all
  finally have tz: "\<bar>t - z\<bar> \<le> 2 * (P * u)" by simp
  \<comment> \<open>the interest\<close>
  define w where "w = t + - P"
  have wP: "\<bar>w\<bar> \<le> 3 * (P * u)" using tz zP by (simp add: w_def)
  have "\<bar>w\<bar> \<le> 2 * 2 ^ 500" using wP Pu assms(2) Ppos by linarith
  moreover have "2 * (2::real) ^ 500 \<le> 2 ^ 1023" by simp
  ultimately have wh: "\<bar>w\<bar> \<le> 2 ^ 1023" by linarith
  obtain i where i: "fl w = Num i" "\<bar>i - w\<bar> \<le> \<bar>w\<bar> / 2 ^ 53 + 2 powi (- 1075)"
    using fl_abs [OF wh] by blast
  have wu: "\<bar>w\<bar> / 2 ^ 53 \<le> \<bar>w\<bar> / 2" by (intro divide_left_mono) simp_all
  have eta: "2 powi (- 1075) \<le> P * u"
  proof -
    have "2 powi (- 500) * u \<le> P * u" using assms(1) upos by (intro mult_right_mono) simp_all
    moreover have "(2::real) powi (- 1075) \<le> 2 powi (- 500) * u" by (simp add: u_def)
    ultimately show ?thesis by linarith
  qed
  have "\<bar>i\<bar> \<le> 8 * (P * u)" using i(2) wu wP eta by linarith
  then have ibound: "\<bar>i\<bar> \<le> P / 2 ^ 50" by (simp add: u_def)
  \<comment> \<open>the payment against the exact quotient\<close>
  have "\<bar>y - P / x\<bar> = P * \<bar>x - k\<bar> / (k * x)"
  proof -
    have "y - P / x = P * (x - k) / (k * x)"
      using kpos xpos by (simp add: y_def field_simps)
    then show ?thesis using Ppos kpos xpos by (simp add: abs_mult abs_divide)
  qed
  also have "\<dots> \<le> P * (x * u) / (k * x)"
    using kx Ppos kpos xpos by (intro divide_right_mono mult_left_mono) simp_all
  also have "\<dots> = y * u" using kpos xpos by (simp add: y_def)
  finally have yx: "\<bar>y - P / x\<bar> \<le> y * u" .
  have "y \<le> 2 * (P / x)"
  proof -
    have "P / k \<le> P / (x / 2)" using klo xpos Ppos by (intro divide_left_mono) simp_all
    then show ?thesis by (simp add: y_def mult.commute)
  qed
  then have "y * u \<le> 2 * (P / x) * u" using upos by (intro mult_right_mono) simp_all
  then have "\<bar>m - P / x\<bar> \<le> 4 * (P / x * u)" using my yx by linarith
  moreover have "0 \<le> P / x * u" using Ppos xpos upos by simp
  ultimately have "\<bar>m - P / x\<bar> \<le> 8 * (P / x * u)" by linarith
  then have mbound: "\<bar>m - P / (T * 12)\<bar> \<le> P / (T * 12) / 2 ^ 50"
    by (simp add: u_def x_def)
  show ?thesis
    using k(1) kpos m(1) t(1) i(1) mbound ibound
    unfolding x_def y_def z_def w_def by blast
qed

section \<open>Calls evaluated operation by operation\<close>

lemma floor_minus_one: "\<lfloor>- 1 :: real\<rfloor> = - 1"
  using floor_of_int [of "- 1", where ?'a = real] by simp

lemma rate_zero: "monthlyRate (Num 0) = Num 0"
  by (simp add: monthlyRate_def parseFloat_def fl_zero)

lemma payment_zero_rate: "payment (Num P) (Num 0) n = num_div (Num P) n"
  by (simp add: payment_def strict_eq_def)

lemma count_10:
  "num_mul (Num 10) (Num 12) = Num 120"
  using fl_eval [of "6" "10 * 12" "8444249301319680"]
  by (simp add: round_even_def Let_def floor_minus_one)

lemma pay_500000:
  "num_div (Num 500000) (Num 120) = Num (4581298449066667 / 2 ^ 40)"
  using fl_eval [of "12" "500000 / 120" "4581298449066667"]
  by (simp add: round_even_def Let_def floor_minus_one)

lemma total_500000:
  "num_mul (Num (4581298449066667 / 2 ^ 40)) (Num 120) = Num (8589934592000001 / 2 ^ 34)"
  using fl_eval [of "18" "(4581298449066667 / 2 ^ 40) * 120" "8589934592000001"]
  by (simp add: round_even_def Let_def floor_minus_one)

lemma interest_500000:
  "num_sub (Num (8589934592000001 / 2 ^ 34)) (Num 500000) = Num (1 / 2 ^ 34)"
  using fl_eval [of "- 34" "(8589934592000001 / 2 ^ 34) - 500000" "4503599627370496"]
  by (simp add: round_even_def Let_def floor_minus_one num_sub_def)

lemma ratio_i_500000:
  "num_div (Num (1 / 2 ^ 34)) (Num (8589934592000001 / 2 ^ 34)) = Num (4722366482869645 / 2 ^ 105)"
  using fl_eval [of "- 53" "(1 / 2 ^ 34) / (8589934592000001 / 2 ^ 34)" "4722366482869645"]
  by (simp add: round_even_def Let_def floor_minus_one)

lemma pct_i_500000:
  "num_mul (Num (4722366482869645 / 2 ^ 105)) (Num 100) = Num (1844674407370955 / 2 ^ 97)"
  using fl_eval [of "- 47" "(4722366482869645 / 2 ^ 105) * 100" "7378697629483820"]
  by (simp add: round_even_def Let_def floor_minus_one)

lemma ratio_p_500000:
  "num_div (Num 500000) (Num (8589934592000001 / 2 ^ 34)) = Num (9007199254740991 / 2 ^ 53)"
  using fl_eval [of "- 1" "500000 / (8589934592000001 / 2 ^ 34)" "9007199254740991"]
  by (simp add: round_even_def Let_def floor_minus_one)

lemma pct_p_500000:
  "num_mul (Num (9007199254740991 / 2 ^ 53)) (Num 100) = Num (7036874417766399 / 2 ^ 46)"
  using fl_eval [of "6" "(9007199254740991 / 2 ^ 53) * 100" "7036874417766399"]
  by (simp add: round_even_def Let_def floor_minus_one)

lemma calc_500000:
  "calculateMortgage (Num 500000) (Num 0) (Num 10) =
     Some \<lparr> monthlyPayment = Num (4581298449066667 / 2 ^ 40), totalPayment = Num (8589934592000001 / 2 ^ 34),
       totalInterest = Num (1 / 2 ^ 34), principalAmount = Num 500000,
       interestPercentage = Num (1844674407370955 / 2 ^ 97), principalPercentage = Num (7036874417766399 / 2 ^ 46) \<rparr>"
  using count_10 pay_500000 total_500000 interest_500000 ratio_i_500000 pct_i_500000
    ratio_p_500000 pct_p_500000
  by (simp add: calc_valid rate_zero payment_zero_rate numPayments_def parseFloat_def
      del: num_mul.simps(1) num_div.simps(1) num_add.simps(1))














lemma pay_least:
  "num_div (Num (1 / 2 ^ 1074)) (Num 120) = Num 0"
  using fl_eval_subnormal [of "(1 / 2 ^ 1074) / 120" "0"]
  by (simp add: round_even_def Let_def floor_minus_one)

lemma total_least:
  "num_mul (Num 0) (Num 120) = Num 0"
  by (simp add: fl_zero)

lemma interest_least:
  "num_sub (Num 0) (Num (1 / 2 ^ 1074)) = Num (- (1 / 2 ^ 1074))"
  using fl_eval_subnormal [of "0 - (1 / 2 ^ 1074)" "- 1"]
  by (simp add: round_even_def Let_def floor_minus_one num_sub_def)







lemma fl_one: "fl 1 = Num 1"
  using fl_int [of 1] by simp

lemma annuity_at_zero_rate:
  "num_mul (Num P) (num_div (numerator (Num 0) n) (denominator (Num 0) n)) = NaN"
proof -
  have b: "num_add (Num 1) (Num 0) = Num 1" by (simp add: fl_one)
  show ?thesis
  proof (cases n)
    case (Num k)
    then show ?thesis
      by (simp add: numerator_def denominator_def num_sub_def b fl_one fl_zero)
  qed (simp_all add: numerator_def denominator_def num_sub_def b fl_one num_mul_NaN_right)
qed

text \<open>
  The two percentages of a summary whose total payment \<open>t\<close> is a normal double of at
  least half the principal: the roundings of the interest, of the two quotients and
  of the two products by 100 leave their sum within \<open>10^-9\<close> of 100.
\<close>

lemma percentages_sum:
  assumes "2 powi (- 1022) \<le> t" "t \<le> 2 ^ 1000" "0 < P" "P \<le> 2 * t"
  shows "\<exists>i q a p b. fl (t + - P) = Num i \<and> fl (i / t) = Num q \<and> fl (q * 100) = Num a
      \<and> fl (P / t) = Num p \<and> fl (p * 100) = Num b \<and> \<bar>a + b - 100\<bar> \<le> 1 / 10 ^ 9"
proof -
  define u :: real where "u = 1 / 2 ^ 53"
  define h :: real where "h = 2 powi (- 1075)"
  have upos: "0 < u" and usmall: "u \<le> 1 / 10 ^ 15" by (simp_all add: u_def)
  have hpos: "0 < h" unfolding h_def by (rule zero_less_power_int) simp
  have hu: "h \<le> u" by (simp add: h_def u_def)
  have uq: "u \<le> 1 / 4" by (simp add: u_def)
  have us: "1402 * u \<le> 1 / 10 ^ 9" by (simp add: u_def)
  have lowpos: "(0::real) < 2 powi (- 1022)" by (rule zero_less_power_int) simp
  have tpos: "0 < t" using assms(1) lowpos by linarith
  have big: "(2::real) ^ 1000 \<le> 2 ^ 1023" by (rule power_increasing) simp_all
  have big2: "(300::real) \<le> 2 ^ 1023"
  proof -
    have "(300::real) \<le> 2 ^ 9" by simp
    also have "(2::real) ^ 9 \<le> 2 ^ 1023" by (rule power_increasing) simp_all
    finally show ?thesis .
  qed
  have htu: "h \<le> t * u"
  proof -
    have "2 powi (- 1022) * u \<le> t * u" using assms(1) upos by (intro mult_right_mono) simp_all
    moreover have "h = 2 powi (- 1022) * u" by (simp add: h_def u_def)
    ultimately show ?thesis by simp
  qed
  \<comment> \<open>the interest\<close>
  define w where "w = t + - P"
  have wt: "\<bar>w\<bar> \<le> t" using assms(3,4) tpos by (simp add: w_def)
  then have "\<bar>w\<bar> \<le> 2 ^ 1023" using assms(2) big by linarith
  then obtain i where i: "fl w = Num i" "\<bar>i - w\<bar> \<le> \<bar>w\<bar> / 2 ^ 53 + 2 powi (- 1075)"
    using fl_abs by blast
  have "\<bar>w\<bar> * u \<le> t * u" using wt upos by (intro mult_right_mono) simp_all
  then have iw: "\<bar>i - w\<bar> \<le> 2 * (t * u)" using i(2) htu by (simp add: u_def h_def)
  have "u \<le> 1 / 2" using usmall by simp
  then have "t * u \<le> t * (1 / 2)" using tpos by (intro mult_left_mono) simp_all
  then have tu1: "t * u \<le> t / 2" by simp
  have it: "\<bar>i\<bar> \<le> 2 * t" using iw wt tu1 tpos by linarith
  define d3 where "d3 = (i - w) / t"
  have d3: "\<bar>d3\<bar> \<le> 2 * u"
  proof -
    have "\<bar>d3\<bar> = \<bar>i - w\<bar> / t" using tpos by (simp add: d3_def)
    also have "\<dots> \<le> 2 * (t * u) / t" using iw tpos by (intro divide_right_mono) simp_all
    also have "\<dots> = 2 * u" using tpos by simp
    finally show ?thesis .
  qed
  \<comment> \<open>the quotient of the interest and the total\<close>
  have x1: "\<bar>i / t\<bar> \<le> 2"
  proof -
    have "\<bar>i / t\<bar> = \<bar>i\<bar> / t" using tpos by simp
    also have "\<dots> \<le> 2 * t / t" using it tpos by (intro divide_right_mono) simp_all
    also have "\<dots> = 2" using tpos by simp
    finally show ?thesis .
  qed
  then have "\<bar>i / t\<bar> \<le> 2 ^ 1023" using big2 by linarith
  then obtain q where q: "fl (i / t) = Num q" "\<bar>q - i / t\<bar> \<le> \<bar>i / t\<bar> / 2 ^ 53 + 2 powi (- 1075)"
    using fl_abs by blast
  define d2 where "d2 = q - i / t"
  have "\<bar>i / t\<bar> * u \<le> 2 * u" using x1 upos by (intro mult_right_mono) simp_all
  then have d2: "\<bar>d2\<bar> \<le> 2 * u + h" using q(2) by (simp add: u_def h_def d2_def)
  have q3: "\<bar>q\<bar> \<le> 3" using d2 x1 hu uq unfolding d2_def by linarith
  have "\<bar>q * 100\<bar> \<le> 300" using q3 by (simp add: abs_mult)
  then have x2: "\<bar>q * 100\<bar> \<le> 300" "\<bar>q * 100\<bar> \<le> 2 ^ 1023" using big2 by linarith+
  obtain a where a: "fl (q * 100) = Num a"
    "\<bar>a - q * 100\<bar> \<le> \<bar>q * 100\<bar> / 2 ^ 53 + 2 powi (- 1075)"
    using fl_abs [OF x2(2)] by blast
  define d1 where "d1 = a - q * 100"
  have "\<bar>q * 100\<bar> * u \<le> 300 * u" using x2(1) upos by (intro mult_right_mono) simp_all
  then have d1: "\<bar>d1\<bar> \<le> 300 * u + h" using a(2) by (simp add: u_def h_def d1_def)
  \<comment> \<open>the quotient of the principal and the total\<close>
  have x3: "\<bar>P / t\<bar> \<le> 2"
  proof -
    have "\<bar>P / t\<bar> = P / t" using tpos assms(3) by simp
    also have "\<dots> \<le> 2 * t / t" using assms(4) tpos by (intro divide_right_mono) simp_all
    also have "\<dots> = 2" using tpos by simp
    finally show ?thesis .
  qed
  then have "\<bar>P / t\<bar> \<le> 2 ^ 1023" using big2 by linarith
  then obtain p where p: "fl (P / t) = Num p" "\<bar>p - P / t\<bar> \<le> \<bar>P / t\<bar> / 2 ^ 53 + 2 powi (- 1075)"
    using fl_abs by blast
  define d5 where "d5 = p - P / t"
  have "\<bar>P / t\<bar> * u \<le> 2 * u" using x3 upos by (intro mult_right_mono) simp_all
  then have d5: "\<bar>d5\<bar> \<le> 2 * u + h" using p(2) by (simp add: u_def h_def d5_def)
  have p3: "\<bar>p\<bar> \<le> 3" using d5 x3 hu uq unfolding d5_def by linarith
  have "\<bar>p * 100\<bar> \<le> 300" using p3 by (simp add: abs_mult)
  then have x4: "\<bar>p * 100\<bar> \<le> 300" "\<bar>p * 100\<bar> \<le> 2 ^ 1023" using big2 by linarith+
  obtain b where b: "fl (p * 100) = Num b"
    "\<bar>b - p * 100\<bar> \<le> \<bar>p * 100\<bar> / 2 ^ 53 + 2 powi (- 1075)"
    using fl_abs [OF x4(2)] by blast
  define d4 where "d4 = b - p * 100"
  have "\<bar>p * 100\<bar> * u \<le> 300 * u" using x4(1) upos by (intro mult_right_mono) simp_all
  then have d4: "\<bar>d4\<bar> \<le> 300 * u + h" using b(2) by (simp add: u_def h_def d4_def)
  \<comment> \<open>the sum\<close>
  have "w / t + P / t = (w + P) / t" by (simp add: add_divide_distrib)
  then have one: "w / t + P / t = 1" using tpos by (simp add: w_def)
  have d3': "d3 = i / t - w / t" by (simp add: d3_def diff_divide_distrib)
  define X Y Z where "X = i / t" and "Y = w / t" and "Z = P / t"
  have "Y + Z = 1" using one by (simp only: Y_def Z_def)
  then have "Z = 1 - Y" by simp
  then have "a + b - 100
      = (a - q * 100) + 100 * (q - X) + 100 * (X - Y) + (b - p * 100) + 100 * (p - Z)"
    by (simp add: algebra_simps)
  then have "a + b - 100 = d1 + 100 * d2 + 100 * d3 + d4 + 100 * d5"
    by (simp only: d1_def d2_def d3' d4_def d5_def X_def Y_def Z_def)
  then have "\<bar>a + b - 100\<bar> \<le> 1 / 10 ^ 9"
    using d1 d2 d3 d4 d5 hu us by linarith
  then show ?thesis using i(1) q(1) a(1) p(1) b(1) unfolding w_def by blast
qed

lemma rate_example_step_exact:
  "num_div (Num 8) (Num 12) = Num (6004799503160661 / 2 ^ 53)"
  using fl_eval [of "- 1" "8 / 12" "6004799503160661"]
  by (simp add: round_even_def Let_def floor_minus_one)

lemma rate_example_exact:
  "num_div (Num (6004799503160661 / 2 ^ 53)) (Num 100) = Num (3843071682022823 / 2 ^ 59)"
  using fl_eval [of "- 8" "(6004799503160661 / 2 ^ 53) / 100" "7686143364045646"]
  by (simp add: round_even_def Let_def floor_minus_one)

lemma rate_example_value:
  "monthlyRate (Num 8) = Num (3843071682022823 / 2 ^ 59)"
  using rate_example_step_exact rate_example_exact
  by (simp add: monthlyRate_def parseFloat_def
      del: num_mul.simps(1) num_div.simps(1) num_add.simps(1))

section \<open>Scaling by a power of two\<close>










section \<open>The monthly payment\<close>




section \<open>Validation\<close>

text \<open>
  C2. For real-number inputs the calculator returns \<^verbatim>\<open>null\<close> exactly when the
  principal is at most zero, or the annual rate is negative, or the term is at most
  zero.
\<close>

theorem invalid_iff:
  "calculateMortgage (Num P) (Num R) (Num T) = None \<longleftrightarrow> P \<le> 0 \<or> R < 0 \<or> T \<le> 0"
  by (auto simp add: calculateMortgage_def invalidInputs_def parseFloat_def num_le_def Let_def)

theorem invalid_iff_witness:
  "calculateMortgage (Num 0) (Num 5) (Num 10) = None
   \<and> calculateMortgage (Num (-100)) (Num 5) (Num 10) = None
   \<and> calculateMortgage (Num 100) (Num (-1)) (Num 10) = None
   \<and> calculateMortgage (Num 100) (Num 5) (Num 0) = None
   \<and> calculateMortgage (Num 100) (Num 5) (Num (-5)) = None
   \<and> calculateMortgage (Num 100) (Num 0) (Num 10) \<noteq> None"
  using invalid_iff [of 0 5 10] invalid_iff [of "-100" 5 10] invalid_iff [of 100 "-1" 10]
    invalid_iff [of 100 5 0] invalid_iff [of 100 5 "-5"] invalid_iff [of 100 0 10]
  by simp

section \<open>Inputs that are not numbers\<close>

text \<open>
  C3. An input that fails to parse reaches the calculator as \<open>NaN\<close>. Each comparison
  of the guard is false on \<open>NaN\<close>, so the guard lets it through and the call returns
  a summary instead of \<^verbatim>\<open>null\<close>; its computed fields are \<open>NaN\<close>. This is evaluated with
  \<open>NaN\<close> as the principal, as the rate and as the term.
\<close>

theorem nan_input_accepted:
  "\<not> invalidInputs NaN (Num 5) (Num 10)
   \<and> calculateMortgage NaN (Num 5) (Num 10) =
     Some \<lparr> monthlyPayment = NaN, totalPayment = NaN, totalInterest = NaN,
            principalAmount = NaN, interestPercentage = NaN, principalPercentage = NaN \<rparr>
   \<and> calculateMortgage (Num 100000) NaN (Num 10) =
     Some \<lparr> monthlyPayment = NaN, totalPayment = NaN, totalInterest = NaN,
            principalAmount = Num 100000, interestPercentage = NaN, principalPercentage = NaN \<rparr>
   \<and> calculateMortgage (Num 100000) (Num 5) NaN =
     Some \<lparr> monthlyPayment = NaN, totalPayment = NaN, totalInterest = NaN,
            principalAmount = Num 100000, interestPercentage = NaN, principalPercentage = NaN \<rparr>"
proof -
  have g: "\<not> invalidInputs NaN (Num 5) (Num 10)"
    "\<not> invalidInputs (Num 100000) NaN (Num 10)"
    "\<not> invalidInputs (Num 100000) (Num 5) NaN"
    by (simp_all add: invalidInputs_def num_le_def)
  have p: "payment NaN r n = NaN" for r n
    by (simp add: payment_def)
  have rate: "monthlyRate NaN = NaN"
    by (simp add: monthlyRate_def parseFloat_def)
  have q: "payment (Num 100000) NaN n = NaN" for n
    by (simp add: payment_def strict_eq_def numerator_def)
  have count: "numPayments NaN = NaN"
    by (simp add: numPayments_def parseFloat_def)
  have t: "payment (Num 100000) r NaN = NaN" for r
    by (simp add: payment_def numerator_def denominator_def num_mul_NaN_right num_sub_NaN)
  show ?thesis
    by (simp add: calculateMortgage_def g parseFloat_def Let_def p q t rate count num_sub_NaN
        num_mul_NaN_right num_div_NaN_right)
qed

section \<open>Invariants of the summary\<close>

text \<open>
  C4. Every summary returned for real-number inputs has its total payment equal to the
  rounded product of the monthly payment and \<open>n = T * 12\<close>, its total interest equal
  to the rounded difference of the total payment and the principal amount, its
  principal amount equal to the principal passed in, and its two percentages equal to
  the rounded quotients of the interest and of the principal by the total payment,
  times 100. When the total payment \<open>t\<close> is a normal double, \<open>2^-1022 \<le> t \<le> 2^1000\<close>,
  and at least half the principal, both percentages are finite and their sum is
  within \<open>10^-9\<close> of 100.
\<close>

theorem summary_invariants:
  assumes "calculateMortgage (Num P) (Num R) (Num T) = Some s"
  shows "totalPayment s = num_mul (monthlyPayment s) (numPayments (Num T))
    \<and> numPayments (Num T) = num_mul (Num T) (Num 12)
    \<and> totalInterest s = num_sub (totalPayment s) (principalAmount s)
    \<and> principalAmount s = Num P
    \<and> interestPercentage s = num_mul (num_div (totalInterest s) (totalPayment s)) (Num 100)
    \<and> principalPercentage s = num_mul (num_div (principalAmount s) (totalPayment s)) (Num 100)
    \<and> (totalPayment s = Num t \<and> 2 powi (- 1022) \<le> t \<and> t \<le> 2 ^ 1000 \<and> P \<le> 2 * t
         \<longrightarrow> (\<exists>a b. interestPercentage s = Num a \<and> principalPercentage s = Num b
                \<and> \<bar>a + b - 100\<bar> \<le> 1 / 10 ^ 9))"
proof -
  have v: "\<not> invalidInputs (Num P) (Num R) (Num T)"
    using assms by (auto simp add: calculateMortgage_def parseFloat_def Let_def split: if_splits)
  then have pos: "0 < P" "0 \<le> R" "0 < T" by (auto simp add: guard_real)
  define mp where "mp = payment (Num P) (monthlyRate (Num R)) (numPayments (Num T))"
  define n where "n = numPayments (Num T)"
  have s: "s = \<lparr> monthlyPayment = mp, totalPayment = num_mul mp n,
      totalInterest = num_sub (num_mul mp n) (Num P), principalAmount = Num P,
      interestPercentage =
        num_mul (num_div (num_sub (num_mul mp n) (Num P)) (num_mul mp n)) (Num 100),
      principalPercentage = num_mul (num_div (Num P) (num_mul mp n)) (Num 100) \<rparr>"
    using assms unfolding calc_valid [OF pos] mp_def n_def by simp
  have tol: "\<exists>a b. interestPercentage s = Num a \<and> principalPercentage s = Num b
      \<and> \<bar>a + b - 100\<bar> \<le> 1 / 10 ^ 9"
    if h: "totalPayment s = Num t" "2 powi (- 1022) \<le> t" "t \<le> 2 ^ 1000" "P \<le> 2 * t"
  proof -
    have t: "num_mul mp n = Num t" using h(1) by (simp add: s)
    have "(0::real) < 2 powi (- 1022)" by (rule zero_less_power_int) simp
    then have t0: "t \<noteq> 0" using h(2) by linarith
    obtain i q a p b where e: "fl (t + - P) = Num i" "fl (i / t) = Num q" "fl (q * 100) = Num a"
      "fl (P / t) = Num p" "fl (p * 100) = Num b" "\<bar>a + b - 100\<bar> \<le> 1 / 10 ^ 9"
      using percentages_sum [OF h(2,3) pos(1) h(4)] by blast
    have i: "num_sub (Num t) (Num P) = Num i" using e(1) by (simp add: num_sub_def)
    have a: "num_mul (num_div (Num i) (Num t)) (Num 100) = Num a" using e(2,3) t0 by simp
    have b: "num_mul (num_div (Num P) (Num t)) (Num 100) = Num b" using e(4,5) t0 by simp
    show ?thesis using e(6) by (simp only: s t i a b summary.simps) blast
  qed
  have tol': "totalPayment s = Num t \<and> 2 powi (- 1022) \<le> t \<and> t \<le> 2 ^ 1000 \<and> P \<le> 2 * t
      \<longrightarrow> (\<exists>a b. interestPercentage s = Num a \<and> principalPercentage s = Num b
             \<and> \<bar>a + b - 100\<bar> \<le> 1 / 10 ^ 9)"
    using tol by blast
  have struct: "totalPayment s = num_mul (monthlyPayment s) (numPayments (Num T))
    \<and> numPayments (Num T) = num_mul (Num T) (Num 12)
    \<and> totalInterest s = num_sub (totalPayment s) (principalAmount s)
    \<and> principalAmount s = Num P
    \<and> interestPercentage s = num_mul (num_div (totalInterest s) (totalPayment s)) (Num 100)
    \<and> principalPercentage s = num_mul (num_div (principalAmount s) (totalPayment s)) (Num 100)"
    by (simp add: s n_def numPayments_def parseFloat_def)
  show ?thesis using struct tol' by blast
qed

theorem summary_invariants_witness:
  "\<exists>s. calculateMortgage (Num 500000) (Num 0) (Num 10) = Some s
     \<and> totalPayment s = Num (8589934592000001 / 2 ^ 34)
     \<and> 2 powi (- 1022) \<le> (8589934592000001 / 2 ^ 34 :: real)
     \<and> (8589934592000001 / 2 ^ 34 :: real) \<le> 2 ^ 1000
     \<and> (500000 :: real) \<le> 2 * (8589934592000001 / 2 ^ 34)
     \<and> totalPayment s = num_mul (monthlyPayment s) (numPayments (Num 10))
     \<and> totalInterest s = num_sub (totalPayment s) (principalAmount s)
     \<and> principalAmount s = Num 500000
     \<and> (\<exists>a b. interestPercentage s = Num a \<and> principalPercentage s = Num b
           \<and> \<bar>a + b - 100\<bar> \<le> 1 / 10 ^ 9)"
proof -
  obtain s where s: "calculateMortgage (Num 500000) (Num 0) (Num 10) = Some s"
    and t: "totalPayment s = Num (8589934592000001 / 2 ^ 34)"
    using calc_500000 by simp
  have "(2::real) powi (- 1022) \<le> 2 powi 0" by (rule power_int_increasing) simp_all
  then have l: "2 powi (- 1022) \<le> (8589934592000001 / 2 ^ 34 :: real)" by simp
  have "(2::real) ^ 20 \<le> 2 ^ 1000" by (rule power_increasing) simp_all
  then have u: "(8589934592000001 / 2 ^ 34 :: real) \<le> 2 ^ 1000" by simp
  have p: "(500000 :: real) \<le> 2 * (8589934592000001 / 2 ^ 34)" by simp
  from summary_invariants [OF s, of "8589934592000001 / 2 ^ 34"] s t l u p
  show ?thesis by blast
qed

text \<open>
  For the smallest positive double as the principal, at a rate of zero over 10 years,
  the monthly payment and the total payment underflow to zero: the interest
  percentage is \<^verbatim>\<open>-Infinity\<close>, the principal percentage is \<^verbatim>\<open>Infinity\<close>, and their sum
  is \<open>NaN\<close>.
\<close>

theorem percentages_counterexample:
  "calculateMortgage (Num (1 / 2 ^ 1074)) (Num 0) (Num 10) \<noteq> None
   \<and> interestPercentage (the (calculateMortgage (Num (1 / 2 ^ 1074)) (Num 0) (Num 10))) = NegInf
   \<and> principalPercentage (the (calculateMortgage (Num (1 / 2 ^ 1074)) (Num 0) (Num 10))) = PosInf
   \<and> num_add (interestPercentage (the (calculateMortgage (Num (1 / 2 ^ 1074)) (Num 0) (Num 10))))
        (principalPercentage (the (calculateMortgage (Num (1 / 2 ^ 1074)) (Num 0) (Num 10)))) = NaN"
proof -
  have n10: "numPayments (Num 10) = Num 120"
    using count_10 by (simp add: numPayments_def parseFloat_def del: num_mul.simps(1) num_div.simps(1) num_add.simps(1))
  have t: "num_mul (payment (Num (1 / 2 ^ 1074)) (Num 0) (Num 120)) (Num 120) = Num 0"
    using pay_least total_least
    by (simp add: payment_zero_rate del: num_mul.simps(1) num_div.simps(1) num_add.simps(1))
  have ip: "num_mul (num_div (Num (- (1 / 2 ^ 1074))) (Num 0)) (Num 100) = NegInf"
    by simp
  have pp: "num_mul (num_div (Num (1 / 2 ^ 1074)) (Num 0)) (Num 100) = PosInf"
    by simp
  show ?thesis
    using t interest_least ip pp
    by (simp add: calc_valid rate_zero n10 del: num_mul.simps(1) num_div.simps(1) num_add.simps(1))
qed

section \<open>The zero-rate branch\<close>

text \<open>
  C5. For a valid input with an annual rate of zero the monthly rate is zero, the test
  \<^verbatim>\<open>r === 0\<close> holds and the straight-line branch sets the monthly payment to the
  rounded quotient \<open>P / n\<close> with \<open>n = T * 12\<close>; the total interest is the rounded
  \<open>monthlyPayment * n - P\<close>. For a principal and a term between \<open>2^-500\<close> and \<open>2^500\<close>
  the monthly payment is finite and within the fraction \<open>2^-50\<close> of \<open>P / (T * 12)\<close>, and
  the total interest is finite and at most \<open>P / 2^50\<close> in magnitude. The annuity
  expression is not what is returned: at a rate of zero it is \<^verbatim>\<open>0 / 0\<close>, \<open>NaN\<close>.
\<close>

theorem zero_rate_straight_line:
  assumes "0 < P" "0 < T"
  shows "strict_eq (monthlyRate (Num 0)) (Num 0)
    \<and> (\<exists>s. calculateMortgage (Num P) (Num 0) (Num T) = Some s
         \<and> monthlyPayment s = num_div (Num P) (numPayments (Num T))
         \<and> totalInterest s
             = num_sub (num_mul (monthlyPayment s) (numPayments (Num T))) (Num P)
         \<and> (2 powi (- 500) \<le> P \<and> P \<le> 2 ^ 500 \<and> 2 powi (- 500) \<le> T \<and> T \<le> 2 ^ 500
              \<longrightarrow> (\<exists>m i. monthlyPayment s = Num m
                     \<and> \<bar>m - P / (T * 12)\<bar> \<le> P / (T * 12) / 2 ^ 50
                     \<and> totalInterest s = Num i \<and> \<bar>i\<bar> \<le> P / 2 ^ 50)))
    \<and> num_mul (Num P) (num_div (numerator (monthlyRate (Num 0)) (numPayments (Num T)))
                                (denominator (monthlyRate (Num 0)) (numPayments (Num T)))) = NaN"
proof -
  have z: "strict_eq (monthlyRate (Num 0)) (Num 0)" by (simp add: rate_zero strict_eq_def)
  have c: "calculateMortgage (Num P) (Num 0) (Num T) =
    Some \<lparr> monthlyPayment = num_div (Num P) (numPayments (Num T)),
      totalPayment = num_mul (num_div (Num P) (numPayments (Num T))) (numPayments (Num T)),
      totalInterest =
        num_sub (num_mul (num_div (Num P) (numPayments (Num T))) (numPayments (Num T))) (Num P),
      principalAmount = Num P,
      interestPercentage =
        num_mul (num_div
            (num_sub (num_mul (num_div (Num P) (numPayments (Num T))) (numPayments (Num T)))
               (Num P))
            (num_mul (num_div (Num P) (numPayments (Num T))) (numPayments (Num T)))) (Num 100),
      principalPercentage =
        num_mul (num_div (Num P)
            (num_mul (num_div (Num P) (numPayments (Num T))) (numPayments (Num T)))) (Num 100) \<rparr>"
    using assms by (simp add: calc_valid rate_zero payment_zero_rate)
  have acc: "\<exists>m i. num_div (Num P) (numPayments (Num T)) = Num m
      \<and> \<bar>m - P / (T * 12)\<bar> \<le> P / (T * 12) / 2 ^ 50
      \<and> num_sub (num_mul (num_div (Num P) (numPayments (Num T))) (numPayments (Num T))) (Num P)
          = Num i
      \<and> \<bar>i\<bar> \<le> P / 2 ^ 50"
    if h: "2 powi (- 500) \<le> P" "P \<le> 2 ^ 500" "2 powi (- 500) \<le> T" "T \<le> 2 ^ 500"
  proof -
    obtain k m t i where e: "fl (T * 12) = Num k" "0 < k" "fl (P / k) = Num m"
      "fl (m * k) = Num t" "fl (t + - P) = Num i"
      "\<bar>m - P / (T * 12)\<bar> \<le> P / (T * 12) / 2 ^ 50" "\<bar>i\<bar> \<le> P / 2 ^ 50"
      using zero_rate_errors [OF h] by blast
    have n: "numPayments (Num T) = Num k" by (simp add: numPayments_def parseFloat_def e(1))
    have d: "num_div (Num P) (Num k) = Num m" using e(2,3) by simp
    have i: "num_sub (num_mul (Num m) (Num k)) (Num P) = Num i"
      using e(4,5) by (simp add: num_sub_def)
    show ?thesis using e(6,7) by (simp only: n d i) blast
  qed
  have a: "num_mul (Num P) (num_div (numerator (monthlyRate (Num 0)) (numPayments (Num T)))
      (denominator (monthlyRate (Num 0)) (numPayments (Num T)))) = NaN"
    by (simp only: rate_zero annuity_at_zero_rate)
  show ?thesis using z acc a by (simp only: c) auto
qed

theorem zero_rate_straight_line_witness:
  "(0::real) < 500000 \<and> (0::real) < 10
   \<and> 2 powi (- 500) \<le> (500000::real) \<and> (500000::real) \<le> 2 ^ 500
   \<and> 2 powi (- 500) \<le> (10::real) \<and> (10::real) \<le> 2 ^ 500
   \<and> strict_eq (monthlyRate (Num 0)) (Num 0)
   \<and> (\<exists>s. calculateMortgage (Num 500000) (Num 0) (Num 10) = Some s
         \<and> monthlyPayment s = num_div (Num 500000) (numPayments (Num 10))
         \<and> (\<exists>m i. monthlyPayment s = Num m
               \<and> \<bar>m - 500000 / (10 * 12)\<bar> \<le> 500000 / (10 * 12) / 2 ^ 50
               \<and> totalInterest s = Num i \<and> \<bar>i\<bar> \<le> 500000 / 2 ^ 50))"
proof -
  have h: "(0::real) < 500000" "(0::real) < 10" by simp_all
  have "(2::real) powi (- 500) \<le> 2 powi 0" by (rule power_int_increasing) simp_all
  then have l: "2 powi (- 500) \<le> (500000::real)" "2 powi (- 500) \<le> (10::real)" by simp_all
  have "(2::real) ^ 20 \<le> 2 ^ 500" by (rule power_increasing) simp_all
  then have u: "(500000::real) \<le> 2 ^ 500" "(10::real) \<le> 2 ^ 500" by simp_all
  from zero_rate_straight_line [OF h] h l u show ?thesis by blast
qed

text \<open>
  For a principal of 500,000 at a rate of zero over 10 years the monthly payment
  \<open>500000 / 120\<close> is rounded, the total payment is one unit in the last place above
  500,000, and the total interest is \<open>2^-34\<close>, not zero.
\<close>

theorem zero_rate_interest_counterexample:
  "calculateMortgage (Num 500000) (Num 0) (Num 10) \<noteq> None
   \<and> totalInterest (the (calculateMortgage (Num 500000) (Num 0) (Num 10))) = Num (1 / 2 ^ 34)
   \<and> totalInterest (the (calculateMortgage (Num 500000) (Num 0) (Num 10))) \<noteq> Num 0"
  by (simp add: calc_500000)

section \<open>Signs of the results\<close>




section \<open>The example scenario\<close>

text \<open>
  C7. For a principal of 1,000,000 at 8 percent over 20 years the monthly rate is the
  double \<open>3843071682022823 / 2^59\<close>, which is \<open>0.08 / 12\<close> up to its rounding,
  \<open>n = 240\<close>, and the calculator returns a monthly payment of 8,364.40, a total payment
  of 2,007,456.17 and a total interest of 1,007,456.17, each within half a cent of the
  value of the annuity formula.
\<close>

theorem example_scenario:
  "monthlyRate (Num 8) = Num (3843071682022823 / 2 ^ 59)
   \<and> near (monthlyRate (Num 8)) (8 / 100 / 12) (1 / 10 ^ 17) \<and> numPayments (Num 20) = Num 240
   \<and> (\<exists>s. calculateMortgage (Num 1000000) (Num 8) (Num 20) = Some s
        \<and> near (monthlyPayment s) (836440 / 100) (1 / 200)
        \<and> near (totalPayment s) (200745617 / 100) (1 / 200)
        \<and> near (totalInterest s) (100745617 / 100) (1 / 200))"
proof -
  have r: "near (monthlyRate (Num 8)) (8 / 100 / 12) (1 / 10 ^ 17)"
    by (rule enclosed_near [OF rate_example]) simp_all
  have m: "near (payment (Num 1000000) (monthlyRate (Num 8)) (Num 240)) (836440 / 100) (1 / 200)"
    by (rule enclosed_near [OF payment_example]) simp_all
  have t: "near (num_mul (payment (Num 1000000) (monthlyRate (Num 8)) (Num 240)) (Num 240))
      (200745617 / 100) (1 / 200)"
    by (rule enclosed_near [OF total_example]) simp_all
  have i: "near (num_sub (num_mul (payment (Num 1000000) (monthlyRate (Num 8)) (Num 240))
      (Num 240)) (Num 1000000)) (100745617 / 100) (1 / 200)"
    by (rule enclosed_near [OF interest_example]) simp_all
  have rest: "near (monthlyRate (Num 8)) (8 / 100 / 12) (1 / 10 ^ 17)
      \<and> numPayments (Num 20) = Num 240
      \<and> (\<exists>s. calculateMortgage (Num 1000000) (Num 8) (Num 20) = Some s
           \<and> near (monthlyPayment s) (836440 / 100) (1 / 200)
           \<and> near (totalPayment s) (200745617 / 100) (1 / 200)
           \<and> near (totalInterest s) (100745617 / 100) (1 / 200))"
    using r m t i by (simp add: calc_valid count_example)
  show ?thesis using rate_example_value rest by (rule conjI)
qed

text \<open>
  The total payment and the total interest of the scenario are more than 10 currency
  units away from 2,007,467 and 1,007,467.
\<close>

theorem example_scenario_counterexample:
  "calculateMortgage (Num 1000000) (Num 8) (Num 20) \<noteq> None
   \<and> \<not> near (totalPayment (the (calculateMortgage (Num 1000000) (Num 8) (Num 20)))) 2007467 10
   \<and> \<not> near (totalInterest (the (calculateMortgage (Num 1000000) (Num 8) (Num 20)))) 1007467 10"
proof -
  obtain t where t: "num_mul (payment (Num 1000000) (monthlyRate (Num 8)) (Num 240)) (Num 240) = Num t"
    "t \<le> 2007456165584435078995211191598 / 10 ^ 24"
    using total_example by (rule enclosedE)
  obtain i where i: "num_sub (num_mul (payment (Num 1000000) (monthlyRate (Num 8)) (Num 240))
      (Num 240)) (Num 1000000) = Num i" "i \<le> 1007456165584435190845314324840 / 10 ^ 24"
    using interest_example by (rule enclosedE)
  show ?thesis
    using t i by (simp add: calc_valid count_example near_def abs_le_iff)
qed

section \<open>Divisors\<close>




section \<open>Scaling the principal\<close>




end
